theory Spec2Isabelle
  imports Main "HOL-Library.Char_ord" "HOL-Library.Sublist"
begin

section \<open>JavaScript strings\<close>

text \<open>
  A JavaScript string is modelled as a \<^typ>\<open>string\<close>. Every pattern, literal and method
  argument of the parser is ASCII, so a text is read as its sequence of bytes (UTF-8): the
  only non-ASCII literal of the program, the letter mu (U+03BC) of the units, is the two bytes
  \<open>mu\<close>. The white space of \<open>\s\<close> and of \<open>trim\<close> is the ASCII white space (tab, line
  feed, vertical tab, form feed, carriage return, space), the line terminators excluded by
  \<open>.\<close> are line feed and carriage return, and case conversion is the one of the ASCII
  letters.

  On a text of ASCII characters (\<open>is_ascii\<close>) these operations are the ones of JavaScript.
  On other characters JavaScript does more: \<open>\s\<close> and \<open>trim\<close> also take the no-break
  space U+00A0, the byte order mark U+FEFF, the separators U+2028 and U+2029 and the other
  Unicode space separators; \<open>.\<close> also stops at U+2028 and U+2029; \<open>toLowerCase\<close> also
  converts the letters outside ASCII (the Kelvin sign U+212A becomes \<open>k\<close>). The
  predicate \<open>is_ascii\<close> serves to state a property for the texts on which the model of
  these operations is exact.
\<close>

definition is_ascii :: "char \<Rightarrow> bool" where
  "is_ascii c = (c \<le> CHR 0x7F)"

definition mu :: string where
  "mu = [CHR 0xCE, CHR 0xBC]"

definition is_space :: "char \<Rightarrow> bool" where
  "is_space c = (c = CHR 0x09 \<or> c = CHR 0x0A \<or> c = CHR 0x0B \<or> c = CHR 0x0C \<or> c = CHR 0x0D \<or> c = CHR '' '')"

definition is_digit :: "char \<Rightarrow> bool" where
  "is_digit c = (CHR ''0'' \<le> c \<and> c \<le> CHR ''9'')"

definition is_upper :: "char \<Rightarrow> bool" where
  "is_upper c = (CHR ''A'' \<le> c \<and> c \<le> CHR ''Z'')"

definition is_lower :: "char \<Rightarrow> bool" where
  "is_lower c = (CHR ''a'' \<le> c \<and> c \<le> CHR ''z'')"

definition upper_letters :: string where
  "upper_letters = ''ABCDEFGHIJKLMNOPQRSTUVWXYZ''"

definition lower_letters :: string where
  "lower_letters = ''abcdefghijklmnopqrstuvwxyz''"

definition to_lower :: "char \<Rightarrow> char" where
  "to_lower c = (case map_of (zip upper_letters lower_letters) c of None \<Rightarrow> c | Some l \<Rightarrow> l)"

definition to_upper :: "char \<Rightarrow> char" where
  "to_upper c = (case map_of (zip lower_letters upper_letters) c of None \<Rightarrow> c | Some u \<Rightarrow> u)"

definition toLowerCase :: "string \<Rightarrow> string" where
  "toLowerCase s = map to_lower s"

definition trim :: "string \<Rightarrow> string" where
  "trim s = rev (dropWhile is_space (rev (dropWhile is_space s)))"

fun includesStr :: "string \<Rightarrow> string \<Rightarrow> bool" where
  "includesStr [] sub = (sub = [])"
| "includesStr (c # s) sub = (prefix sub (c # s) \<or> includesStr s sub)"

definition endsWith :: "string \<Rightarrow> string \<Rightarrow> bool" where
  "endsWith s suf = suffix suf s"

text \<open>\<open>s.split('\n')\<close>: the pieces between the line feeds; an empty text gives one empty line.\<close>

fun split_nl :: "string \<Rightarrow> string list" where
  "split_nl [] = [[]]"
| "split_nl (c # s) =
     (if c = CHR 0x0A then [] # split_nl s
      else (case split_nl s of l # ls \<Rightarrow> (c # l) # ls | [] \<Rightarrow> [[c]]))"

fun join :: "string \<Rightarrow> string list \<Rightarrow> string" where
  "join sep [] = []"
| "join sep [x] = x"
| "join sep (x # y # ys) = x @ sep @ join sep (y # ys)"

text \<open>\<open>s.replace('_', ' ')\<close> with a string pattern replaces the first occurrence only.\<close>

fun replace_first :: "char \<Rightarrow> char \<Rightarrow> string \<Rightarrow> string" where
  "replace_first a b [] = []"
| "replace_first a b (c # s) = (if c = a then b # s else c # replace_first a b s)"

section \<open>JavaScript numbers\<close>

text \<open>
  \<open>parseFloat\<close> is only ever applied to a capture of \<open>(\d+\.?\d*)\<close>: decimal digits with
  at most one point and no sign or exponent. Its result is modelled by the exact decimal
  value \<open>Dec m e\<close>, standing for \<open>m / 10 ^ e\<close> with no trailing zero in the fraction.
  JavaScript rounds this value to the nearest double. The two agree, in the sense that the
  double prints as the decimal and is zero only when the decimal is, when the capture has
  at most 15 significant digits and its value is zero or lies in the normal range of the
  doubles (from \<open>2 ^ -1022\<close> up to the largest double, about \<open>1.8 * 10 ^ 308\<close>), as it
  does for a capture of fewer than 300 characters. Outside these bounds JavaScript rounds
  the digits beyond the 17th away, turns a tiny non-zero value into 0 (underflow) and a huge
  one into \<open>Infinity\<close> (overflow), which the model does not. \<open>numToString\<close> is
  Number::toString of ECMAScript on the decimal value.
\<close>

datatype jsnum = NaN | Dec nat nat

fun isNaN :: "jsnum \<Rightarrow> bool" where
  "isNaN NaN = True"
| "isNaN (Dec m e) = False"

fun num_truthy :: "jsnum \<Rightarrow> bool" where
  "num_truthy NaN = False"
| "num_truthy (Dec m e) = (m \<noteq> 0)"

definition digit_val :: "char \<Rightarrow> nat" where
  "digit_val c = of_char c - 48"

definition digits_val :: "string \<Rightarrow> nat" where
  "digits_val s = foldl (\<lambda>a c. 10 * a + digit_val c) 0 s"

fun norm_dec :: "nat \<Rightarrow> nat \<Rightarrow> jsnum" where
  "norm_dec m 0 = Dec m 0"
| "norm_dec m (Suc e) = (if m mod 10 = 0 then norm_dec (m div 10) e else Dec m (Suc e))"

definition parseFloat :: "string \<Rightarrow> jsnum" where
  "parseFloat s =
     (let ip = takeWhile is_digit s;
          r = dropWhile is_digit s;
          fp = (case r of [] \<Rightarrow> [] | c # r' \<Rightarrow> if c = CHR ''.'' then takeWhile is_digit r' else [])
      in if ip = [] then NaN else norm_dec (digits_val (ip @ fp)) (length fp))"

fun nat_digits :: "nat \<Rightarrow> string" where
  "nat_digits n = (if n < 10 then [''0123456789'' ! n] else nat_digits (n div 10) @ [''0123456789'' ! (n mod 10)])"

definition strip_zeros :: "string \<Rightarrow> string" where
  "strip_zeros s = rev (dropWhile (\<lambda>c. c = CHR ''0'') (rev s))"

definition numToString :: "jsnum \<Rightarrow> string" where
  "numToString x =
     (case x of NaN \<Rightarrow> ''NaN''
      | Dec m e \<Rightarrow>
          if m = 0 then ''0''
          else let s = strip_zeros (nat_digits m);
                   k = length s;
                   n = int (length (nat_digits m)) - int e
               in if int k \<le> n \<and> n \<le> 21 then s @ replicate (nat (n - int k)) (CHR ''0'')
                  else if 0 < n \<and> n \<le> 21 then take (nat n) s @ ''.'' @ drop (nat n) s
                  else if - 6 < n \<and> n \<le> 0 then ''0.'' @ replicate (nat (- n)) (CHR ''0'') @ s
                  else let ex = (if 0 \<le> n - 1 then ''+'' else ''-'') @ nat_digits (nat (abs (n - 1)))
                       in if k = 1 then s @ ''e'' @ ex
                          else take 1 s @ ''.'' @ drop 1 s @ ''e'' @ ex)"

section \<open>Values and objects\<close>

text \<open>
  The values stored in the result objects are strings and numbers. An object is the list
  of its own properties in insertion order: assigning to a present key overwrites the value
  in place, assigning to a new key appends, so \<open>Object.keys(o).length\<close> is the length of
  the list.
\<close>

datatype jsval = Str string | Num jsnum

type_synonym obj = "(string \<times> jsval) list"

fun obj_set :: "(string \<times> 'v) list \<Rightarrow> string \<Rightarrow> 'v \<Rightarrow> (string \<times> 'v) list" where
  "obj_set [] k v = [(k, v)]"
| "obj_set ((k', v') # r) k v = (if k' = k then (k, v) # r else (k', v') # obj_set r k v)"

definition obj_get :: "(string \<times> 'v) list \<Rightarrow> string \<Rightarrow> 'v option" where
  "obj_get ob k = map_of ob k"

text \<open>Truthiness of a property read (\<open>None\<close> is \<open>undefined\<close>) and its rendering in a template literal.\<close>

fun truthy :: "jsval option \<Rightarrow> bool" where
  "truthy None = False"
| "truthy (Some (Str s)) = (s \<noteq> [])"
| "truthy (Some (Num n)) = num_truthy n"

fun tmpl :: "jsval option \<Rightarrow> string" where
  "tmpl None = ''undefined''"
| "tmpl (Some (Str s)) = s"
| "tmpl (Some (Num n)) = numToString n"

section \<open>Regular expressions\<close>

text \<open>
  The patterns are values of \<open>regex\<close>; \<open>rmatch r st\<close> lists the states in which a match
  of \<open>r\<close> started in state \<open>st\<close> can end, in the order in which the backtracking matcher
  of ECMAScript tries them (RepeatMatcher: a greedy repetition tries one more iteration
  first, a lazy one tries to stop first; an iteration that matches the empty string once
  the minimum is reached is rejected). A state is the index in the text, the rest of the
  text from there, and the captures made so far, the latest first.
\<close>

datatype regex =
    Atom "char \<Rightarrow> bool"
  | Eps
  | Bol
  | Seq regex regex
  | Alt regex regex
  | Rep nat "nat option" bool regex
  | Group nat regex

type_synonym rstate = "nat \<times> string \<times> (nat \<times> string) list"

fun rep_lo :: "regex \<Rightarrow> nat" where
  "rep_lo (Rep lo hi g a) = lo"
| "rep_lo (Atom p) = 0"
| "rep_lo Eps = 0"
| "rep_lo Bol = 0"
| "rep_lo (Seq a b) = 0"
| "rep_lo (Alt a b) = 0"
| "rep_lo (Group k a) = 0"

function rmatch :: "regex \<Rightarrow> rstate \<Rightarrow> rstate list" where
  "rmatch (Atom p) (i, s, c) =
     (case s of [] \<Rightarrow> [] | x # xs \<Rightarrow> if p x then [(Suc i, xs, c)] else [])"
| "rmatch Eps (i, s, c) = [(i, s, c)]"
| "rmatch Bol (i, s, c) = (if i = 0 then [(i, s, c)] else [])"
| "rmatch (Seq a b) (i, s, c) = concat (map (rmatch b) (rmatch a (i, s, c)))"
| "rmatch (Alt a b) (i, s, c) = rmatch a (i, s, c) @ rmatch b (i, s, c)"
| "rmatch (Group k a) (i, s, c) =
     map (\<lambda>(j, t, d). (j, t, (k, take (j - i) s) # d)) (rmatch a (i, s, c))"
| "rmatch (Rep lo hi g a) (i, s, c) =
     (if hi = Some 0 then [(i, s, c)]
      else let again = concat (map (\<lambda>(j, t, d).
                   if lo = 0 \<and> length t < length s \<or> 0 < lo \<and> length t \<le> length s
                   then rmatch (Rep (lo - 1) (map_option (\<lambda>h. h - 1) hi) g a) (j, t, d)
                   else [])
                 (rmatch a (i, s, c)))
           in if 0 < lo then again
              else if g then again @ [(i, s, c)]
              else (i, s, c) # again)"
  by pat_completeness auto
termination
  by (relation "inv_image (less_than <*lex*> less_than <*lex*> less_than)
        (\<lambda>(r, (i, s, c)). (size r, length s, rep_lo r))") auto

text \<open>
  \<open>String.prototype.match\<close> with a pattern without the global flag: the match is tried at
  index 0, 1, ... up to the length of the text, and the first index with a match gives the
  result; at that index the first end state of the backtracking order is taken.
\<close>

fun search :: "regex \<Rightarrow> nat \<Rightarrow> string \<Rightarrow> (nat \<times> string \<times> rstate) option" where
  "search r i [] = (case rmatch r (i, [], []) of [] \<Rightarrow> None | st # sts \<Rightarrow> Some (i, [], st))"
| "search r i (x # xs) =
     (case rmatch r (i, x # xs, []) of
        [] \<Rightarrow> search r (Suc i) xs
      | st # sts \<Rightarrow> Some (i, x # xs, st))"

text \<open>
  The match array: the matched text and the captures by number. In every pattern of this
  program each group lies outside all alternatives and repetitions, so it takes part in
  every match; \<open>grp\<close> gives the empty string for a number that captured nothing.
\<close>

type_synonym rmatch_result = "string \<times> (nat \<times> string) list"

definition exec :: "regex \<Rightarrow> string \<Rightarrow> rmatch_result option" where
  "exec r text =
     (case search r 0 text of
        None \<Rightarrow> None
      | Some (i, s, (j, t, c)) \<Rightarrow> Some (take (j - i) s, c))"

fun grp :: "rmatch_result \<Rightarrow> nat \<Rightarrow> string" where
  "grp (w, c) 0 = w"
| "grp (w, c) (Suc k) = (case map_of c (Suc k) of None \<Rightarrow> [] | Some x \<Rightarrow> x)"

subsection \<open>Pattern syntax\<close>

fun seqs :: "regex list \<Rightarrow> regex" where
  "seqs [] = Eps"
| "seqs [r] = r"
| "seqs (r # r' # rs) = Seq r (seqs (r' # rs))"

definition chr :: "char \<Rightarrow> regex" where
  "chr c = Atom (\<lambda>x. x = c)"

text \<open>With the flag \<open>i\<close> two characters match when their upper-case forms agree.\<close>

definition chr_i :: "char \<Rightarrow> regex" where
  "chr_i c = Atom (\<lambda>x. to_upper x = to_upper c)"

definition lit :: "string \<Rightarrow> regex" where
  "lit s = seqs (map chr s)"

definition lit_i :: "string \<Rightarrow> regex" where
  "lit_i s = seqs (map chr_i s)"

definition re_star :: "regex \<Rightarrow> regex" where
  "re_star r = Rep 0 None True r"

definition re_plus :: "regex \<Rightarrow> regex" where
  "re_plus r = Rep 1 None True r"

definition lazy_plus :: "regex \<Rightarrow> regex" where
  "lazy_plus r = Rep 1 None False r"

definition re_opt :: "regex \<Rightarrow> regex" where
  "re_opt r = Rep 0 (Some 1) True r"

definition rep_range :: "nat \<Rightarrow> nat \<Rightarrow> regex \<Rightarrow> regex" where
  "rep_range lo hi r = Rep lo (Some hi) True r"

definition digit :: regex where
  "digit = Atom is_digit"

definition space :: regex where
  "space = Atom is_space"

text \<open>\<open>[:\s]\<close>, \<open>[^:]\<close>, \<open>[^)]\<close>, \<open>.\<close>, and with the flag \<open>i\<close>: \<open>[A-Z]\<close>, \<open>[A-Z\s]\<close>, \<open>[GH]\<close>.\<close>

definition colon_or_space :: regex where
  "colon_or_space = Atom (\<lambda>x. x = CHR '':'' \<or> is_space x)"

definition not_chr :: "char \<Rightarrow> regex" where
  "not_chr c = Atom (\<lambda>x. x \<noteq> c)"

definition dot :: regex where
  "dot = Atom (\<lambda>x. x \<noteq> CHR 0x0A \<and> x \<noteq> CHR 0x0D)"

definition letter_i :: regex where
  "letter_i = Atom (\<lambda>x. is_upper (to_upper x))"

definition letter_or_space_i :: regex where
  "letter_or_space_i = Atom (\<lambda>x. is_upper (to_upper x) \<or> is_space x)"

definition g_or_h_i :: regex where
  "g_or_h_i = Atom (\<lambda>x. to_upper x = CHR ''G'' \<or> to_upper x = CHR ''H'')"

text \<open>\<open>(\d+\.?\d*)\<close> as group \<open>k\<close>.\<close>

definition number :: "nat \<Rightarrow> regex" where
  "number k = Group k (seqs [re_plus digit, re_opt (chr (CHR ''.'')), re_star digit])"

section \<open>EpicDataParser\<close>

subsection \<open>The pattern tables of the constructor\<close>

text \<open>
  \<open>cbcPatterns\<close> and \<open>morphologyPatterns\<close> in the order of their keys, which is the
  order in which \<open>Object.keys(...).forEach\<close> visits them.
\<close>

definition date_re :: regex where
  "date_re = Group 1 (Alt
     (seqs [rep_range 1 2 digit, chr (CHR ''/''), rep_range 1 2 digit, chr (CHR ''/''), rep_range 2 4 digit])
     (seqs [rep_range 1 2 digit, chr (CHR ''-''), rep_range 1 2 digit, chr (CHR ''-''), rep_range 2 4 digit]))"

definition lab_re :: "string \<Rightarrow> regex" where
  "lab_re label = seqs [lit_i label, re_star colon_or_space, number 1]"

definition hgb_re :: regex where
  "hgb_re = seqs [chr_i (CHR ''H''), g_or_h_i, chr_i (CHR ''B''), re_star colon_or_space, number 1]"

definition cbcPatterns :: "(string \<times> regex) list" where
  "cbcPatterns =
     [(''date'', date_re),
      (''wbc'', lab_re ''WBC''),
      (''rbc'', lab_re ''RBC''),
      (''hgb'', hgb_re),
      (''hct'', lab_re ''HCT''),
      (''mcv'', lab_re ''MCV''),
      (''mch'', lab_re ''MCH''),
      (''mchc'', lab_re ''MCHC''),
      (''plt'', lab_re ''PLT''),
      (''mpv'', lab_re ''MPV''),
      (''rdw'', lab_re ''RDW'')]"

definition morphologyPatterns :: "(string \<times> regex) list" where
  "morphologyPatterns =
     [(''toxicGranulation'',
         seqs [lit_i ''Toxic'', re_plus space, lit_i ''Granulation'', re_star colon_or_space,
               Group 1 (re_plus letter_i)]),
      (''giantPlatelets'',
         seqs [lit_i ''PLTS,'', re_star space, lit_i ''giant'', re_star colon_or_space,
               Group 1 (re_plus letter_i)]),
      (''rbcMorph'',
         seqs [lit_i ''RBC'', re_plus space, lit_i ''MORPH'', re_star colon_or_space,
               Group 1 (re_plus letter_or_space_i)]),
      (''atypicalLymphs'',
         seqs [lit_i ''Lymphs,'', re_star space, lit_i ''atypical/reactive'', re_star colon_or_space,
               number 1])]"

text \<open>The patterns written inside the methods.\<close>

definition nrbc_re :: regex where
  "nrbc_re = seqs [lit_i ''NRBC%'', re_star (not_chr (CHR '':'')), chr (CHR '':''), re_star space, number 1]"

definition diffMethod_re :: regex where
  "diffMethod_re = seqs [lit_i ''Diff Method'', re_star colon_or_space, Group 1 (re_plus dot)]"

definition percent_re :: regex where
  "percent_re =
     seqs [Bol,
           Group 1 (lazy_plus (not_chr (CHR '':''))),
           re_opt (seqs [re_star space, chr (CHR ''(''), re_star (not_chr (CHR '')'')), chr (CHR '')'')]),
           re_star space, chr (CHR '':''), re_star space,
           number 2]"

subsection \<open>parseCBC\<close>

definition parseCBC :: "string option \<Rightarrow> obj" where
  "parseCBC text =
     (case text of
        None \<Rightarrow> []
      | Some t \<Rightarrow>
          if t = [] then []
          else foldl (\<lambda>results (key, re).
                   case exec re t of
                     None \<Rightarrow> results
                   | Some m \<Rightarrow> obj_set results key
                       (if key = ''date'' then Str (grp m 1) else Num (parseFloat (grp m 1))))
                 [] cbcPatterns)"

subsection \<open>normalizeCellType\<close>

definition typeMap :: "(string \<times> string) list" where
  "typeMap =
     [(''neutrophils'', ''neutrophils''),
      (''neutrophil'', ''neutrophils''),
      (''polys'', ''neutrophils''),
      (''poly'', ''neutrophils''),
      (''lymphs'', ''lymphocytes''),
      (''lymphocytes'', ''lymphocytes''),
      (''lymph'', ''lymphocytes''),
      (''monos'', ''monocytes''),
      (''monocytes'', ''monocytes''),
      (''mono'', ''monocytes''),
      (''eos'', ''eosinophils''),
      (''eosinophils'', ''eosinophils''),
      (''eosinophil'', ''eosinophils''),
      (''basos'', ''basophils''),
      (''basophils'', ''basophils''),
      (''basophil'', ''basophils''),
      (''basos (auto)'', ''basophils''),
      (''bands'', ''bands''),
      (''band'', ''bands''),
      (''blasts'', ''blasts''),
      (''blast'', ''blasts''),
      (''metamyelocytes'', ''metamyelocytes''),
      (''metamyelo'', ''metamyelocytes''),
      (''meta'', ''metamyelocytes''),
      (''myelocytes'', ''myelocytes''),
      (''myelo'', ''myelocytes''),
      (''promyelocytes'', ''promyelocytes''),
      (''promyelo'', ''promyelocytes''),
      (''other'', ''other''),
      (''unknown'', ''unknown''),
      (''atypical lymphs'', ''atypical_lymphocytes''),
      (''reactive lymphs'', ''atypical_lymphocytes''),
      (''lymphs, atypical/reactive (auto)'', ''atypical_lymphocytes''),
      (''granulocytes, immature'', ''immature_granulocytes''),
      (''granulocytes,immature'', ''immature_granulocytes''),
      (''granulocytes, immature (%)'', ''immature_granulocytes''),
      (''granulocytes,immature (%)'', ''immature_granulocytes''),
      (''immature granulocytes'', ''immature_granulocytes''),
      (''nrbc% (auto)'', ''nrbc''),
      (''nrbc%'', ''nrbc'')]"

text \<open>
  \<open>typeMap[normalized]\<close> reads an object literal, which also answers for the two
  lower-case property names it inherits from \<open>Object.prototype\<close>: \<open>constructor\<close> (the
  function \<open>Object\<close>) and \<open>__proto__\<close> (the prototype object). Both are truthy, and used
  as a property key further on they are converted to the strings below (the first one as
  V8 prints a native function).
\<close>

definition inherited :: "string \<Rightarrow> string option" where
  "inherited normalized =
     (if normalized = ''constructor'' then Some ''function Object() { [native code] }''
      else if normalized = ''__proto__'' then Some ''[object Object]''
      else None)"

definition normalizeCellType :: "string \<Rightarrow> string option" where
  "normalizeCellType cellType =
     (let normalized = trim (toLowerCase cellType)
      in case map_of typeMap normalized of
           Some v \<Rightarrow> if v = [] then None else Some v
         | None \<Rightarrow> inherited normalized)"

subsection \<open>parseDifferential\<close>

record dmatch =
  normalizedType :: string
  percentage :: jsnum
  priority :: nat
  originalLine :: string

text \<open>The body of the first loop for one line: the entry it pushes, if any.\<close>

definition lineMatch :: "string \<Rightarrow> dmatch option" where
  "lineMatch line =
     (if includesStr line ''#'' then None
      else case exec percent_re line of
             None \<Rightarrow> None
           | Some percentMatch \<Rightarrow>
               let cellType = trim (grp percentMatch 1);
                   percentage = parseFloat (grp percentMatch 2)
               in (case normalizeCellType cellType of
                     None \<Rightarrow> None
                   | Some nt \<Rightarrow>
                       if \<not> isNaN percentage
                       then Some \<lparr>normalizedType = nt, percentage = percentage,
                                  priority = (if includesStr cellType ''(%)'' \<or> includesStr cellType ''% (''
                                              then 3
                                              else if includesStr cellType ''('' then 2
                                              else 1),
                                  originalLine = line\<rparr>
                       else None))"

definition collectMatches :: "string list \<Rightarrow> dmatch list" where
  "collectMatches lines =
     foldl (\<lambda>allMatches line.
              case lineMatch line of None \<Rightarrow> allMatches | Some m \<Rightarrow> allMatches @ [m])
       [] lines"

text \<open>The second pass.\<close>

definition selectGroups :: "dmatch list \<Rightarrow> (string \<times> dmatch) list" where
  "selectGroups allMatches =
     foldl (\<lambda>typeGroups m.
              case obj_get typeGroups (normalizedType m) of
                None \<Rightarrow> obj_set typeGroups (normalizedType m) m
              | Some g \<Rightarrow>
                  if priority g < priority m then obj_set typeGroups (normalizedType m) m
                  else typeGroups)
       [] allMatches"

definition parseDifferential :: "string option \<Rightarrow> obj" where
  "parseDifferential text =
     (case text of
        None \<Rightarrow> []
      | Some t \<Rightarrow>
          if t = [] then []
          else
            let diffMethodMatch = exec diffMethod_re t;
                diffMethod = map_option (\<lambda>m. trim (grp m 1)) diffMethodMatch
            in if (case diffMethod of None \<Rightarrow> False
                   | Some d \<Rightarrow> d \<noteq> [] \<and> includesStr d ''not performed'')
               then [(''diffMethod'', Str (case diffMethod of None \<Rightarrow> [] | Some d \<Rightarrow> d))]
               else
                 let results = [(''diffMethod'',
                        Str (case diffMethod of
                               None \<Rightarrow> ''Unknown''
                             | Some d \<Rightarrow> if d = [] then ''Unknown'' else d))];
                     lines = split_nl t;
                     allMatches = collectMatches lines;
                     typeGroups = selectGroups allMatches
                 in foldl (\<lambda>results m. obj_set results (normalizedType m) (Num (percentage m)))
                      results (map snd typeGroups))"

subsection \<open>parseMorphology\<close>

definition parseMorphology :: "string option \<Rightarrow> obj" where
  "parseMorphology text =
     (case text of
        None \<Rightarrow> []
      | Some t \<Rightarrow>
          if t = [] then []
          else
            let results = foldl (\<lambda>results (key, re).
                     case exec re t of
                       None \<Rightarrow> results
                     | Some m \<Rightarrow> obj_set results key (Str (trim (grp m 1))))
                   [] morphologyPatterns
            in (case exec nrbc_re t of
                  None \<Rightarrow> results
                | Some nrbcMatch \<Rightarrow> obj_set results ''nrbc'' (Num (parseFloat (grp nrbcMatch 1)))))"

subsection \<open>parseAll\<close>

record parsed =
  cbc :: obj
  differential :: obj
  morphology :: obj
  raw :: "string option"

definition parseAll :: "string option \<Rightarrow> parsed" where
  "parseAll text =
     \<lparr>cbc = parseCBC text,
      differential = parseDifferential text,
      morphology = parseMorphology text,
      raw = text\<rparr>"

section \<open>generateCBCParagraph\<close>

text \<open>
  The function reads properties, tests them for truthiness, renders them in template
  literals and calls string methods on some of them. Calling \<open>includes\<close> or
  \<open>toLowerCase\<close> on a number throws a TypeError, which is the only way the function can
  fail before it has built the paragraph; the paragraph is what it stores in
  \<open>window.cbcParagraph\<close>.
\<close>

datatype error = TypeError

text \<open>\<open>v && v.includes(sub)\<close> and \<open>v && v.toLowerCase()\<close> (\<open>None\<close> when \<open>v\<close> is falsy).\<close>

fun and_includes :: "jsval option \<Rightarrow> string \<Rightarrow> error + bool" where
  "and_includes None sub = Inr False"
| "and_includes (Some (Str s)) sub = Inr (s \<noteq> [] \<and> includesStr s sub)"
| "and_includes (Some (Num n)) sub = (if num_truthy n then Inl TypeError else Inr False)"

fun and_lower :: "jsval option \<Rightarrow> error + string option" where
  "and_lower None = Inr None"
| "and_lower (Some (Str s)) = Inr (if s \<noteq> [] then Some (toLowerCase s) else None)"
| "and_lower (Some (Num n)) = (if num_truthy n then Inl TypeError else Inr None)"

subsection \<open>CBC paragraph\<close>

definition cbcParts :: "obj \<Rightarrow> string list" where
  "cbcParts c =
     (if truthy (obj_get c ''wbc'') then [''WBC '' @ tmpl (obj_get c ''wbc'') @ '' K/'' @ mu @ ''L''] else []) @
     (if truthy (obj_get c ''rbc'') then [''RBC '' @ tmpl (obj_get c ''rbc'') @ '' M/'' @ mu @ ''L''] else []) @
     (if truthy (obj_get c ''hgb'') then [''HGB '' @ tmpl (obj_get c ''hgb'') @ '' g/dL''] else []) @
     (if truthy (obj_get c ''hct'') then [''HCT '' @ tmpl (obj_get c ''hct'') @ ''%''] else []) @
     (if truthy (obj_get c ''mcv'') then [''MCV '' @ tmpl (obj_get c ''mcv'') @ '' fL''] else []) @
     (if truthy (obj_get c ''mch'') then [''MCH '' @ tmpl (obj_get c ''mch'') @ '' pg''] else []) @
     (if truthy (obj_get c ''mchc'') then [''MCHC '' @ tmpl (obj_get c ''mchc'') @ '' g/dL''] else []) @
     (if truthy (obj_get c ''plt'') then [''PLT '' @ tmpl (obj_get c ''plt'') @ '' K/'' @ mu @ ''L''] else []) @
     (if truthy (obj_get c ''rdw'') then [''RDW '' @ tmpl (obj_get c ''rdw'') @ ''%''] else [])"

definition cbcSection :: "obj \<Rightarrow> string" where
  "cbcSection c =
     (if 0 < length c
      then (if truthy (obj_get c ''date'')
            then ''CBC results from '' @ tmpl (obj_get c ''date'') @ '' are as follows: ''
            else ''CBC results are as follows: '')
           @ join '', '' (cbcParts c) @ ''.''
      else [])"

subsection \<open>Differential paragraph\<close>

definition orderedTypes :: "string list" where
  "orderedTypes =
     [''neutrophils'', ''bands'', ''lymphocytes'', ''atypical_lymphocytes'', ''monocytes'',
      ''eosinophils'', ''basophils'', ''metamyelocytes'', ''myelocytes'', ''promyelocytes'',
      ''blasts'', ''other'']"

definition diffParts :: "obj \<Rightarrow> string list" where
  "diffParts diff =
     foldl (\<lambda>parts type.
              if obj_get diff type \<noteq> None
              then parts @ [tmpl (obj_get diff type) @ ''% '' @ replace_first (CHR ''_'') (CHR '' '') type]
              else parts)
       [] orderedTypes"

definition diffSection :: "obj \<Rightarrow> error + string" where
  "diffSection diff =
     (if 1 < length diff
      then (case and_includes (obj_get diff ''diffMethod'') ''not performed'' of
              Inl e \<Rightarrow> Inl e
            | Inr True \<Rightarrow> Inr '' Differential was not performed due to low WBC count.''
            | Inr False \<Rightarrow>
                let method = (if truthy (obj_get diff ''diffMethod'')
                              then tmpl (obj_get diff ''diffMethod'')
                              else ''Unknown method'')
                in Inr ('' '' @ method @ '' differential''
                        @ (if includesStr (toLowerCase method) ''auto'' then '' shows ''
                           else if includesStr (toLowerCase method) ''manual'' then '' demonstrates ''
                           else '' shows '')
                        @ join '', '' (diffParts diff)))
      else Inr [])"

subsection \<open>Special differential findings and morphology\<close>

definition morphFindings :: "obj \<Rightarrow> error + string list" where
  "morphFindings morph =
     (if 0 < length morph
      then (case and_lower (obj_get morph ''toxicGranulation'') of
              Inl e \<Rightarrow> Inl e
            | Inr toxic \<Rightarrow>
               (case and_lower (obj_get morph ''giantPlatelets'') of
                  Inl e \<Rightarrow> Inl e
                | Inr giant \<Rightarrow>
                   (case and_lower (obj_get morph ''rbcMorph'') of
                      Inl e \<Rightarrow> Inl e
                    | Inr rbcMorph \<Rightarrow>
                        Inr ((if toxic = Some ''present'' then [''toxic granulation''] else []) @
                             (if giant = Some ''present'' then [''giant platelets''] else []) @
                             (if truthy (obj_get morph ''atypicalLymphs'')
                              then [tmpl (obj_get morph ''atypicalLymphs'') @ ''% atypical/reactive lymphocytes'']
                              else []) @
                             (case rbcMorph of
                                None \<Rightarrow> []
                              | Some l \<Rightarrow>
                                  if l \<noteq> ''normal'' \<and> l \<noteq> ''completed''
                                  then [''RBC morphology: '' @ l] else [])))))
      else Inr [])"

definition morphParts :: "obj \<Rightarrow> obj \<Rightarrow> error + string list" where
  "morphParts diff morph =
     (case morphFindings morph of
        Inl e \<Rightarrow> Inl e
      | Inr findings \<Rightarrow>
          Inr ((if obj_get diff ''immature_granulocytes'' \<noteq> None
                then [tmpl (obj_get diff ''immature_granulocytes'') @ ''% immature granulocytes'']
                else []) @
               (if obj_get diff ''nrbc'' \<noteq> None
                then [tmpl (obj_get diff ''nrbc'') @ ''% NRBCs'']
                else if truthy (obj_get morph ''nrbc'')
                then [tmpl (obj_get morph ''nrbc'') @ ''% NRBCs'']
                else []) @
               findings))"

subsection \<open>The paragraph\<close>

definition closeParagraph :: "string \<Rightarrow> string list \<Rightarrow> string" where
  "closeParagraph paragraph parts =
     (if 0 < length parts
      then (if endsWith (trim paragraph) '','' \<or> includesStr paragraph ''shows''
            then paragraph @ '', '' @ join '', '' parts @ ''.''
            else paragraph @ '' '' @ join '', '' parts @ ''.'')
      else (if endsWith (trim paragraph) '','' \<or>
               (includesStr paragraph ''shows'' \<and> \<not> endsWith (trim paragraph) ''.'')
            then paragraph @ ''.''
            else paragraph))"

definition generateCBCParagraph :: "parsed \<Rightarrow> error + string" where
  "generateCBCParagraph p =
     (case diffSection (differential p) of
        Inl e \<Rightarrow> Inl e
      | Inr d \<Rightarrow>
         (case morphParts (differential p) (morphology p) of
            Inl e \<Rightarrow> Inl e
          | Inr parts \<Rightarrow> Inr (closeParagraph (cbcSection (cbc p) @ d) parts)))"

section \<open>Notions used to state the properties\<close>

text \<open>
  The result of trying the pattern at index \<open>k\<close> of the text only; \<open>exec\<close> is the
  first such result.
\<close>

definition match_at :: "regex \<Rightarrow> string \<Rightarrow> nat \<Rightarrow> rmatch_result option" where
  "match_at r text k =
     (case rmatch r (k, drop k text, []) of
        [] \<Rightarrow> None
      | (j, t, c) # sts \<Rightarrow> Some (take (j - k) (drop k text), c))"


definition leadIn :: "obj \<Rightarrow> string" where
  "leadIn c =
     (if truthy (obj_get c ''date'')
      then ''CBC results from '' @ tmpl (obj_get c ''date'') @ '' are as follows: ''
      else ''CBC results are as follows: '')"


text \<open>
  The canonical cell-type names are the values of \<open>typeMap\<close>; \<open>inheritedKeys\<close> are the two
  keys that \<open>inherited\<close> can produce.
\<close>

definition canonicalTypes :: "string list" where
  "canonicalTypes = remdups (map snd typeMap)"

definition inheritedKeys :: "string list" where
  "inheritedKeys = [''function Object() { [native code] }'', ''[object Object]'']"

text \<open>
  The method that parseDifferential reads from the text (the trimmed capture of the first
  match of the declaration pattern, if there is a match), and its test for a differential
  that was not performed.
\<close>

definition declaredMethod :: "string \<Rightarrow> string option" where
  "declaredMethod t = map_option (\<lambda>m. trim (grp m 1)) (exec diffMethod_re t)"

definition notPerformed :: "string \<Rightarrow> bool" where
  "notPerformed t =
     (case declaredMethod t of None \<Rightarrow> False | Some d \<Rightarrow> d \<noteq> [] \<and> includesStr d ''not performed'')"

section \<open>Objects\<close>

lemma keys_obj_set: "fst ` set (obj_set r k v) = insert k (fst ` set r)"
proof (induction r)
  case Nil
  then show ?case by simp
next
  case (Cons a r)
  then show ?case by (cases a) (auto split: if_splits)
qed

lemma distinct_obj_set: "distinct (map fst r) \<Longrightarrow> distinct (map fst (obj_set r k v))"
proof (induction r)
  case Nil
  then show ?case by simp
next
  case (Cons a r)
  obtain k' v' where a: "a = (k', v')" by (cases a)
  show ?case
  proof (cases "k' = k")
    case True
    with Cons.prems a show ?thesis by simp
  next
    case False
    have "k' \<notin> fst ` set (obj_set r k v)"
      using Cons.prems a False by (simp add: keys_obj_set)
    with Cons a False show ?thesis by simp
  qed
qed

lemma distinct_foldl_obj_set:
  "distinct (map fst r) \<Longrightarrow> distinct (map fst (foldl (\<lambda>res m. obj_set res (f m) (g m)) r ms))"
  by (induction ms arbitrary: r) (simp_all add: distinct_obj_set)

lemma parseDifferential_distinct_keys: "distinct (map fst (parseDifferential text))"
proof (cases "text")
  case None
  then show ?thesis by (simp add: parseDifferential_def)
next
  case (Some t)
  show ?thesis
    unfolding parseDifferential_def Some
    by (simp add: Let_def distinct_foldl_obj_set split: option.split)
qed

lemma obj_get_obj_set: "obj_get (obj_set r k v) k' = (if k' = k then Some v else obj_get r k')"
  by (induction r) (auto simp: obj_get_def)

lemma collectMatches_step:
  "foldl (\<lambda>allMatches line. case lineMatch line of None \<Rightarrow> allMatches | Some m \<Rightarrow> allMatches @ [m]) acc ls
   = acc @ List.map_filter lineMatch ls"
  by (induction ls arbitrary: acc) (auto simp: List.map_filter_simps split: option.split)

lemma collectMatches_map_filter: "collectMatches ls = List.map_filter lineMatch ls"
  by (simp add: collectMatches_def collectMatches_step)

lemma lineMatch_hash: "includesStr line ''#'' \<Longrightarrow> lineMatch line = None"
  by (simp add: lineMatch_def)

lemma collectMatches_filter:
  "collectMatches ls = collectMatches (filter (\<lambda>l. \<not> includesStr l ''#'') ls)"
  unfolding collectMatches_map_filter
  by (induction ls) (auto simp: List.map_filter_simps lineMatch_hash split: option.split)

section \<open>Searching and the pattern tables\<close>

lemma search_first:
  "k \<le> length s \<Longrightarrow> rmatch r (i + k, drop k s, []) = st # sts \<Longrightarrow>
   (\<forall>k'<k. rmatch r (i + k', drop k' s, []) = []) \<Longrightarrow>
   search r i s = Some (i + k, drop k s, st)"
proof (induction s arbitrary: i k)
  case Nil
  then show ?case by simp
next
  case (Cons x xs)
  show ?case
  proof (cases k)
    case 0
    with Cons.prems show ?thesis by simp
  next
    case (Suc k0)
    have first: "rmatch r (i, x # xs, []) = []"
      using Cons.prems(3) Suc by (metis add.right_neutral drop0 zero_less_Suc)
    have le: "k0 \<le> length xs" using Cons.prems(1) Suc by simp
    have here: "rmatch r (Suc i + k0, drop k0 xs, []) = st # sts"
      using Cons.prems(2) Suc by simp
    have before: "\<forall>k'<k0. rmatch r (Suc i + k', drop k' xs, []) = []"
    proof (intro allI impI)
      fix k' assume "k' < k0"
      then have "Suc k' < k" using Suc by simp
      with Cons.prems(3) have "rmatch r (i + Suc k', drop (Suc k') (x # xs), []) = []" by blast
      then show "rmatch r (Suc i + k', drop k' xs, []) = []" by simp
    qed
    have "search r (Suc i) xs = Some (Suc i + k0, drop k0 xs, st)"
      by (rule Cons.IH [OF le here before])
    with first Suc show ?thesis by simp
  qed
qed

lemma exec_first:
  assumes "k \<le> length text" and "match_at r text k = Some m"
    and "\<forall>k'<k. match_at r text k' = None"
  shows "exec r text = Some m"
proof -
  from assms(2) obtain j t c sts where
    here: "rmatch r (k, drop k text, []) = (j, t, c) # sts" and m: "m = (take (j - k) (drop k text), c)"
    by (auto simp: match_at_def split: list.splits)
  have before: "\<forall>k'<k. rmatch r (0 + k', drop k' text, []) = []"
  proof (intro allI impI)
    fix k' assume "k' < k"
    with assms(3) have "match_at r text k' = None" by blast
    then show "rmatch r (0 + k', drop k' text, []) = []"
      by (cases "rmatch r (k', drop k' text, [])") (auto simp: match_at_def)
  qed
  have "search r 0 text = Some (0 + k, drop k text, (j, t, c))"
    by (rule search_first [OF assms(1) _ before]) (use here in simp)
  then show ?thesis by (simp add: exec_def m)
qed

lemma foldl_patterns_get:
  "distinct (map fst ps) \<Longrightarrow>
   obj_get (foldl (\<lambda>results (key, re).
                case exec re t of None \<Rightarrow> results | Some m \<Rightarrow> obj_set results key (f key m)) acc ps) k
   = (case map_of ps k of
        None \<Rightarrow> obj_get acc k
      | Some re \<Rightarrow> (case exec re t of None \<Rightarrow> obj_get acc k | Some m \<Rightarrow> Some (f k m)))"
proof (induction ps arbitrary: acc)
  case Nil
  then show ?case by simp
next
  case (Cons p ps)
  obtain key re where p: "p = (key, re)" by (cases p)
  have d: "distinct (map fst ps)" and notin: "key \<notin> fst ` set ps"
    using Cons.prems p by auto
  show ?case
  proof (cases "k = key")
    case True
    have "map_of ps k = None" using notin True by (simp add: map_of_eq_None_iff)
    then show ?thesis
      using Cons.IH [OF d] p True by (simp add: obj_get_obj_set split: option.split)
  next
    case False
    then show ?thesis
      using Cons.IH [OF d] p by (simp add: obj_get_obj_set split: option.split)
  qed
qed

lemma obj_get_Nil: "obj_get [] k = None"
  by (simp add: obj_get_def)

lemma distinct_cbcPatterns: "distinct (map fst cbcPatterns)"
  by (simp add: cbcPatterns_def)

lemma distinct_morphologyPatterns: "distinct (map fst morphologyPatterns)"
  by (simp add: morphologyPatterns_def)

lemma parseCBC_get:
  "t \<noteq> [] \<Longrightarrow> obj_get (parseCBC (Some t)) k =
     (case map_of cbcPatterns k of
        None \<Rightarrow> None
      | Some re \<Rightarrow> (case exec re t of
                      None \<Rightarrow> None
                    | Some m \<Rightarrow> Some (if k = ''date'' then Str (grp m 1) else Num (parseFloat (grp m 1)))))"
  unfolding parseCBC_def
  by (simp add: foldl_patterns_get [OF distinct_cbcPatterns] obj_get_Nil cong: option.case_cong)

lemma parseMorphology_get:
  "t \<noteq> [] \<Longrightarrow> obj_get (parseMorphology (Some t)) k =
     (if k = ''nrbc''
      then (case exec nrbc_re t of None \<Rightarrow> None | Some m \<Rightarrow> Some (Num (parseFloat (grp m 1))))
      else (case map_of morphologyPatterns k of
              None \<Rightarrow> None
            | Some re \<Rightarrow> (case exec re t of None \<Rightarrow> None | Some m \<Rightarrow> Some (Str (trim (grp m 1))))))"
proof -
  have nr: "map_of morphologyPatterns ''nrbc'' = None"
    by (simp add: morphologyPatterns_def)
  assume "t \<noteq> []"
  then show ?thesis
    unfolding parseMorphology_def
    by (simp add: Let_def obj_get_obj_set foldl_patterns_get [OF distinct_morphologyPatterns]
        obj_get_Nil nr split: option.split cong: option.case_cong)
qed

section \<open>Where a differential entry comes from\<close>

lemma in_obj_set: "(k', v') \<in> set (obj_set r k v) \<Longrightarrow> (k', v') \<in> set r \<or> (k' = k \<and> v' = v)"
proof (induction r)
  case Nil
  then show ?case by simp
next
  case (Cons a r)
  then show ?case by (cases a) (auto split: if_splits)
qed

lemma in_foldl_obj_set:
  "(k, v) \<in> set (foldl (\<lambda>res m. obj_set res (f m) (g m)) r ms) \<Longrightarrow>
   (k, v) \<in> set r \<or> (\<exists>m\<in>set ms. k = f m \<and> v = g m)"
proof (induction ms arbitrary: r)
  case Nil
  then show ?case by simp
next
  case (Cons m ms)
  from Cons.IH [of "obj_set r (f m) (g m)"] Cons.prems
  have "(k, v) \<in> set (obj_set r (f m) (g m)) \<or> (\<exists>m\<in>set ms. k = f m \<and> v = g m)" by simp
  then show ?case using in_obj_set [of k v r "f m" "g m"] by auto
qed

lemma in_selectGroups_step:
  "(k, g) \<in> set (foldl (\<lambda>typeGroups m.
              case obj_get typeGroups (normalizedType m) of
                None \<Rightarrow> obj_set typeGroups (normalizedType m) m
              | Some g \<Rightarrow>
                  if priority g < priority m then obj_set typeGroups (normalizedType m) m
                  else typeGroups) acc ms) \<Longrightarrow>
   (k, g) \<in> set acc \<or> (g \<in> set ms \<and> k = normalizedType g)"
proof (induction ms arbitrary: acc)
  case Nil
  then show ?case by simp
next
  case (Cons m ms)
  let ?acc' = "case obj_get acc (normalizedType m) of
                None \<Rightarrow> obj_set acc (normalizedType m) m
              | Some g \<Rightarrow>
                  if priority g < priority m then obj_set acc (normalizedType m) m
                  else acc"
  from Cons.IH [of ?acc'] Cons.prems
  have "(k, g) \<in> set ?acc' \<or> (g \<in> set ms \<and> k = normalizedType g)" by simp
  moreover have "(k, g) \<in> set ?acc' \<Longrightarrow> (k, g) \<in> set acc \<or> (g = m \<and> k = normalizedType g)"
    using in_obj_set [of k g acc "normalizedType m" m] by (auto split: option.splits if_splits)
  ultimately show ?case by auto
qed

lemma in_selectGroups: "(k, g) \<in> set (selectGroups ms) \<Longrightarrow> g \<in> set ms \<and> k = normalizedType g"
  unfolding selectGroups_def using in_selectGroups_step [of k g "[]" ms] by simp

lemma in_collectMatches: "m \<in> set (collectMatches ls) \<longleftrightarrow> (\<exists>l\<in>set ls. lineMatch l = Some m)"
  unfolding collectMatches_map_filter
  by (induction ls) (auto split: option.splits)

lemma lineMatch_no_hash: "lineMatch line = Some m \<Longrightarrow> \<not> includesStr line ''#''"
  by (auto simp: lineMatch_def split: if_splits)

lemma differential_entry_origin:
  assumes "(key, v) \<in> set (parseDifferential (Some text))" and "key \<noteq> ''diffMethod''"
  shows "\<exists>line\<in>set (split_nl text). \<not> includesStr line ''#'' \<and>
           (\<exists>m. lineMatch line = Some m \<and> normalizedType m = key \<and> v = Num (percentage m))"
proof -
  let ?groups = "selectGroups (collectMatches (split_nl text))"
  have "\<exists>m\<in>set (map snd ?groups). key = normalizedType m \<and> v = Num (percentage m)"
  proof (cases "text = []")
    case True
    with assms show ?thesis by (simp add: parseDifferential_def)
  next
    case False
    with assms show ?thesis
      unfolding parseDifferential_def
      by (auto simp: Let_def split: if_splits option.splits dest!: in_foldl_obj_set)
  qed
  then obtain k m where km: "(k, m) \<in> set ?groups" and key: "key = normalizedType m"
    and v: "v = Num (percentage m)" by auto
  from in_selectGroups [OF km] have "m \<in> set (collectMatches (split_nl text))" by simp
  then obtain line where "line \<in> set (split_nl text)" and "lineMatch line = Some m"
    by (auto simp: in_collectMatches)
  then show ?thesis using key v lineMatch_no_hash by blast
qed

section \<open>Evaluation of the patterns on the empty text\<close>

lemmas re_defs = chr_def chr_i_def lit_def lit_i_def re_star_def re_plus_def lazy_plus_def
  re_opt_def rep_range_def digit_def space_def colon_or_space_def not_chr_def dot_def
  letter_i_def letter_or_space_i_def g_or_h_i_def number_def

lemma cbc_no_match_in_empty: "(key, re) \<in> set cbcPatterns \<Longrightarrow> match_at re [] k = None"
  by (auto simp: cbcPatterns_def match_at_def date_re_def lab_re_def hgb_re_def re_defs)


lemma obj_get_None_iff: "obj_get r k = None \<longleftrightarrow> k \<notin> fst ` set r"
  by (simp add: obj_get_def map_of_eq_None_iff)

section \<open>The paragraph\<close>

lemma obj_get_filter:
  "obj_get (filter (\<lambda>e. fst e \<noteq> key) c) k = (if k = key then None else obj_get c k)"
  by (induction c) (auto simp: obj_get_def)



lemma cbcParts_zero:
  "obj_get c key = Some (Num (Dec 0 0)) \<Longrightarrow> cbcParts c = cbcParts (filter (\<lambda>e. fst e \<noteq> key) c)"
  by (auto simp: cbcParts_def obj_get_filter)



section \<open>The values stored by the parser have the types the paragraph expects\<close>











lemma exec_Nil_match_at: "match_at r [] 0 = None \<Longrightarrow> exec r [] = None"
  by (cases "rmatch r (0, [], [])") (auto simp: match_at_def exec_def)

lemma morphFindings_filter:
  "morphFindings (filter (\<lambda>e. fst e \<noteq> ''nrbc'') morph) = morphFindings morph"
proof (cases "filter (\<lambda>e. fst e \<noteq> ''nrbc'') morph = []")
  case True
  then have all: "\<forall>e\<in>set morph. fst e = ''nrbc''" by (simp add: filter_empty_conv)
  have none: "obj_get morph k = None" if "k \<noteq> ''nrbc''" for k
    using all that by (auto simp: obj_get_None_iff)
  show ?thesis
    unfolding True by (simp add: morphFindings_def none)
next
  case False
  then have "morph \<noteq> []" by auto
  with False show ?thesis
    by (simp add: morphFindings_def obj_get_filter cong: sum.case_cong)
qed

lemma morphParts_zero_nrbc:
  "obj_get morph ''nrbc'' = Some (Num (Dec 0 0)) \<Longrightarrow>
   morphParts diff (filter (\<lambda>e. fst e \<noteq> ''nrbc'') morph) = morphParts diff morph"
  by (simp add: morphParts_def morphFindings_filter obj_get_filter cong: sum.case_cong)

section \<open>Greedy repetition of a character class, and the method declaration line\<close>





lemma rmatch_Seq_head:
  "rmatch a (i, s, c) = st # sts \<Longrightarrow> rmatch b st = st' # sts' \<Longrightarrow>
   \<exists>sts''. rmatch (Seq a b) (i, s, c) = st' # sts''"
  by simp






section \<open>The second pass keeps a highest priority\<close>

lemma selectGroups_snoc:
  "selectGroups (ms @ [m]) =
     (case obj_get (selectGroups ms) (normalizedType m) of
        None \<Rightarrow> obj_set (selectGroups ms) (normalizedType m) m
      | Some g \<Rightarrow>
          if priority g < priority m then obj_set (selectGroups ms) (normalizedType m) m
          else selectGroups ms)"
  unfolding selectGroups_def by simp

lemma selectGroups_highest:
  "m \<in> set ms \<Longrightarrow>
   \<exists>g. obj_get (selectGroups ms) (normalizedType m) = Some g \<and> priority m \<le> priority g"
proof (induction ms rule: rev_induct)
  case Nil
  then show ?case by simp
next
  case (snoc x xs)
  show ?case
  proof (cases "m \<in> set xs")
    case True
    from snoc.IH [OF this] obtain g where
      g: "obj_get (selectGroups xs) (normalizedType m) = Some g" "priority m \<le> priority g"
      by blast
    show ?thesis
    proof (cases "normalizedType x = normalizedType m")
      case True
      with g show ?thesis
        by (auto simp: selectGroups_snoc obj_get_obj_set)
    next
      case False
      with g show ?thesis
        by (auto simp: selectGroups_snoc obj_get_obj_set split: option.split)
    qed
  next
    case False
    with snoc.prems have "m = x" by simp
    then show ?thesis
      by (auto simp: selectGroups_snoc obj_get_obj_set split: option.split)
  qed
qed

section \<open>Canonical names and the entries of the differential\<close>

lemma canonicalTypes_eval:
  "canonicalTypes =
     [''neutrophils'', ''lymphocytes'', ''monocytes'', ''eosinophils'', ''basophils'', ''bands'',
      ''blasts'', ''metamyelocytes'', ''myelocytes'', ''promyelocytes'', ''other'', ''unknown'',
      ''atypical_lymphocytes'', ''immature_granulocytes'', ''nrbc'']"
  by code_simp

lemma normalizeCellType_range:
  assumes "normalizeCellType c = Some nt"
  shows "nt \<in> set canonicalTypes \<or> nt \<in> set inheritedKeys"
proof -
  have "nt \<in> snd ` set typeMap \<or> inherited (trim (toLowerCase c)) = Some nt"
    using assms unfolding normalizeCellType_def
    by (auto simp: Let_def split: option.splits if_splits dest!: map_of_SomeD intro: rev_image_eqI)
  moreover have "inherited x = Some nt \<Longrightarrow> nt \<in> set inheritedKeys" for x
    by (auto simp: inherited_def inheritedKeys_def split: if_splits)
  ultimately show ?thesis by (auto simp: canonicalTypes_def)
qed

lemma distinct_typeMap: "distinct (map fst typeMap)"
  by code_simp

lemma typeMap_values_nonempty: "list_all (\<lambda>e. snd e \<noteq> []) typeMap"
  by code_simp

lemma normalizeCellType_synonym:
  assumes "trim (toLowerCase c) = syn" and "(syn, canon) \<in> set typeMap"
  shows "normalizeCellType c = Some canon \<and> canon \<in> set canonicalTypes"
proof -
  have m: "map_of typeMap syn = Some canon"
    using assms(2) distinct_typeMap by (rule_tac map_of_is_SomeI)
  have "canon \<noteq> []"
    using typeMap_values_nonempty assms(2) by (auto simp: list_all_iff)
  with m assms(1) have "normalizeCellType c = Some canon"
    by (simp add: normalizeCellType_def Let_def)
  moreover have "canon \<in> set canonicalTypes"
    using assms(2) by (force simp: canonicalTypes_def)
  ultimately show ?thesis ..
qed

lemma lineMatch_canonical:
  "lineMatch line = Some m \<Longrightarrow>
   normalizedType m \<in> set canonicalTypes \<or> normalizedType m \<in> set inheritedKeys"
  unfolding lineMatch_def
  by (auto simp: Let_def split: if_splits option.splits dest: normalizeCellType_range)

lemma distinct_selectGroups: "distinct (map fst (selectGroups ms))"
proof (induction ms rule: rev_induct)
  case Nil
  show ?case by (simp add: selectGroups_def)
next
  case (snoc x xs)
  then show ?case
    by (simp add: selectGroups_snoc distinct_obj_set split: option.split)
qed

lemma obj_get_SomeD: "obj_get r k = Some v \<Longrightarrow> (k, v) \<in> set r"
  by (simp add: obj_get_def map_of_SomeD)

lemma obj_get_Cons: "obj_get ((k1, v1) # r) k = (if k = k1 then Some v1 else obj_get r k)"
  by (simp add: obj_get_def)

lemma obj_get_foldl_groups:
  assumes "distinct (map fst groups)" and "\<forall>e\<in>set groups. f (snd e) = fst e"
  shows "obj_get (foldl (\<lambda>res m. obj_set res (f m) (g m)) r (map snd groups)) k =
           (case obj_get groups k of None \<Rightarrow> obj_get r k | Some m \<Rightarrow> Some (g m))"
  using assms
proof (induction groups arbitrary: r)
  case Nil
  show ?case by (simp add: obj_get_Nil)
next
  case (Cons e groups)
  obtain k1 m1 where e: "e = (k1, m1)" by (cases e)
  have f1: "f m1 = k1" using Cons.prems(2) e by simp
  have d: "distinct (map fst groups)" and notin: "k1 \<notin> fst ` set groups"
    using Cons.prems(1) e by auto
  have a: "\<forall>e\<in>set groups. f (snd e) = fst e" using Cons.prems(2) by simp
  have none: "obj_get groups k1 = None" using notin by (simp add: obj_get_None_iff)
  show ?case
    using Cons.IH [OF d a, of "obj_set r k1 (g m1)"] none
    by (auto simp: e f1 obj_get_obj_set obj_get_Cons split: option.split)
qed

lemma filter_key_single:
  "distinct (map fst r) \<Longrightarrow> obj_get r k = Some v \<Longrightarrow> filter (\<lambda>e. fst e = k) r = [(k, v)]"
proof (induction r)
  case Nil
  then show ?case by (simp add: obj_get_Nil)
next
  case (Cons e r)
  obtain k1 v1 where e: "e = (k1, v1)" by (cases e)
  show ?case
  proof (cases "k1 = k")
    case True
    then have "k \<notin> fst ` set r" using Cons.prems(1) e by auto
    then have "filter (\<lambda>e. fst e = k) r = []" by (auto simp: filter_empty_conv)
    with True Cons.prems(2) e show ?thesis by (simp add: obj_get_def)
  next
    case False
    with Cons e show ?thesis by (simp add: obj_get_def)
  qed
qed

lemma parseDifferential_performed:
  "t \<noteq> [] \<Longrightarrow> \<not> notPerformed t \<Longrightarrow>
   parseDifferential (Some t) =
     foldl (\<lambda>results m. obj_set results (normalizedType m) (Num (percentage m)))
       [(''diffMethod'', Str (case declaredMethod t of None \<Rightarrow> ''Unknown''
                               | Some d \<Rightarrow> if d = [] then ''Unknown'' else d))]
       (map snd (selectGroups (collectMatches (split_nl t))))"
  by (auto simp: parseDifferential_def notPerformed_def declaredMethod_def Let_def split: option.splits)

lemma lineMatch_Nil: "lineMatch [] = None"
  by code_simp

lemma synonym_lines_one_entry:
  assumes np: "\<not> notPerformed t" and line: "line \<in> set (split_nl t)" and m: "lineMatch line = Some m"
  shows "\<exists>g\<in>set (collectMatches (split_nl t)).
           normalizedType g = normalizedType m \<and> priority m \<le> priority g \<and>
           filter (\<lambda>e. fst e = normalizedType m) (parseDifferential (Some t))
             = [(normalizedType m, Num (percentage g))]"
proof -
  let ?ms = "collectMatches (split_nl t)"
  let ?k = "normalizedType m"
  have ne: "t \<noteq> []" using line m lineMatch_Nil by auto
  have "m \<in> set ?ms" using line m by (auto simp: in_collectMatches)
  from selectGroups_highest [OF this] obtain g where
    g: "obj_get (selectGroups ?ms) ?k = Some g" and pr: "priority m \<le> priority g" by blast
  from in_selectGroups [OF obj_get_SomeD [OF g]] have gin: "g \<in> set ?ms" and gk: "normalizedType g = ?k"
    by simp_all
  have keys: "\<forall>e\<in>set (selectGroups ?ms). normalizedType (snd e) = fst e"
    using in_selectGroups by fastforce
  have "obj_get (parseDifferential (Some t)) ?k = Some (Num (percentage g))"
    unfolding parseDifferential_performed [OF ne np]
    by (simp add: obj_get_foldl_groups [OF distinct_selectGroups keys] g)
  from filter_key_single [OF parseDifferential_distinct_keys this] gin gk pr
  show ?thesis by blast
qed

lemma filter_key_le1:
  "distinct (map fst r) \<Longrightarrow> length (filter (\<lambda>e. fst e = k) r) \<le> 1"
proof (induction r)
  case Nil
  show ?case by simp
next
  case (Cons e r)
  show ?case
  proof (cases "fst e = k")
    case True
    then have "k \<notin> fst ` set r" using Cons.prems by auto
    then have "filter (\<lambda>e. fst e = k) r = []" by (auto simp: filter_empty_conv)
    with True show ?thesis by simp
  next
    case False
    with Cons show ?thesis by simp
  qed
qed

lemma parseDifferential_keys_canonical:
  assumes "e \<in> set (parseDifferential text)"
  shows "fst e = ''diffMethod'' \<or> fst e \<in> set canonicalTypes \<or> fst e \<in> set inheritedKeys"
proof (cases "text")
  case None
  with assms show ?thesis by (simp add: parseDifferential_def)
next
  case (Some t)
  obtain key v where e: "e = (key, v)" by (cases e)
  show ?thesis
  proof (cases "key = ''diffMethod''")
    case True
    with e show ?thesis by simp
  next
    case False
    from differential_entry_origin [OF assms [unfolded e Some] False]
    obtain line m where "lineMatch line = Some m" and "normalizedType m = key" by blast
    with lineMatch_canonical [of line m] e show ?thesis by auto
  qed
qed

section \<open>The first declaration of the method\<close>




section \<open>The claims\<close>

text \<open>
  Claim C3. For every input text (null included), the mapping that parseDifferential
  returns has at most one entry per canonical cell type: no key occurs twice; every key
  other than the method status \<open>diffMethod\<close> is one of the canonical names of \<open>typeMap\<close>
  (or one of the two keys of \<open>inheritedKeys\<close>); and each canonical name has at most one
  entry. The synonyms are merged by normalizeCellType: a label whose trimmed lower-case
  form is a key of \<open>typeMap\<close> is sent to the canonical name of that key. Hence, for every
  ASCII text whose differential is not declared not performed, every line that the first
  loop accepts has, under the canonical name of its label, exactly one entry in the result,
  shared by all the lines with that canonical name however many they are.
\<close>

theorem one_entry_per_canonical_type:
  "distinct (map fst (parseDifferential text)) \<and>
   (\<forall>e\<in>set (parseDifferential text).
      fst e = ''diffMethod'' \<or> fst e \<in> set canonicalTypes \<or> fst e \<in> set inheritedKeys) \<and>
   (\<forall>k\<in>set canonicalTypes. length (filter (\<lambda>e. fst e = k) (parseDifferential text)) \<le> 1) \<and>
   (trim (toLowerCase c) = syn \<and> (syn, canon) \<in> set typeMap \<longrightarrow>
      normalizeCellType c = Some canon \<and> canon \<in> set canonicalTypes) \<and>
   ((\<forall>x\<in>set t. is_ascii x) \<and> \<not> notPerformed t \<and> line \<in> set (split_nl t) \<and> lineMatch line = Some m \<longrightarrow>
      map fst (filter (\<lambda>e. fst e = normalizedType m) (parseDifferential (Some t))) = [normalizedType m])"
proof (intro conjI ballI)
  show "distinct (map fst (parseDifferential text))" by (rule parseDifferential_distinct_keys)
next
  fix e assume "e \<in> set (parseDifferential text)"
  then show "fst e = ''diffMethod'' \<or> fst e \<in> set canonicalTypes \<or> fst e \<in> set inheritedKeys"
    by (rule parseDifferential_keys_canonical)
next
  fix k
  show "length (filter (\<lambda>e. fst e = k) (parseDifferential text)) \<le> 1"
    by (rule filter_key_le1 [OF parseDifferential_distinct_keys])
next
  show "trim (toLowerCase c) = syn \<and> (syn, canon) \<in> set typeMap \<longrightarrow>
      normalizeCellType c = Some canon \<and> canon \<in> set canonicalTypes"
  proof
    assume a: "trim (toLowerCase c) = syn \<and> (syn, canon) \<in> set typeMap"
    show "normalizeCellType c = Some canon \<and> canon \<in> set canonicalTypes"
      by (rule normalizeCellType_synonym [OF a [THEN conjunct1] a [THEN conjunct2]])
  qed
next
  show "(\<forall>x\<in>set t. is_ascii x) \<and> \<not> notPerformed t \<and> line \<in> set (split_nl t) \<and> lineMatch line = Some m \<longrightarrow>
      map fst (filter (\<lambda>e. fst e = normalizedType m) (parseDifferential (Some t))) = [normalizedType m]"
  proof
    assume a: "(\<forall>x\<in>set t. is_ascii x) \<and> \<not> notPerformed t \<and> line \<in> set (split_nl t) \<and> lineMatch line = Some m"
    then have 1: "\<not> notPerformed t" and 2: "line \<in> set (split_nl t)" and 3: "lineMatch line = Some m"
      by simp_all
    from synonym_lines_one_entry [OF 1 2 3]
    show "map fst (filter (\<lambda>e. fst e = normalizedType m) (parseDifferential (Some t))) = [normalizedType m]"
      by (elim bexE conjE) simp
  qed
qed

theorem one_entry_per_canonical_type_witness:
  "parseDifferential (Some ''Polys: 4\<newline>Neutrophils: 5\<newline>POLY: 6'')
     = [(''diffMethod'', Str ''Unknown''), (''neutrophils'', Num (Dec 4 0))] \<and>
   normalizeCellType ''Polys'' = Some ''neutrophils'' \<and>
   normalizeCellType ''Neutrophils'' = Some ''neutrophils'' \<and>
   normalizeCellType ''POLY'' = Some ''neutrophils'' \<and>
   length (filter (\<lambda>e. fst e = ''neutrophils'')
       (parseDifferential (Some ''Polys: 4\<newline>Neutrophils: 5\<newline>POLY: 6''))) \<le> 1 \<and>
   map fst (filter (\<lambda>e. fst e = ''neutrophils'')
       (parseDifferential (Some ''Polys: 4\<newline>Neutrophils: 5\<newline>POLY: 6''))) = [''neutrophils'']"
proof -
  let ?t = "''Polys: 4\<newline>Neutrophils: 5\<newline>POLY: 6''"
  let ?m = "\<lparr>normalizedType = ''neutrophils'', percentage = Dec 6 0, priority = 1, originalLine = ''POLY: 6''\<rparr>"
  note inst = one_entry_per_canonical_type [where ?text = "Some ?t" and t = ?t and line = "''POLY: 6''" and m = ?m]
  have r: "parseDifferential (Some ?t) = [(''diffMethod'', Str ''Unknown''), (''neutrophils'', Num (Dec 4 0))]"
    by code_simp
  have tm: "(''polys'', ''neutrophils'') \<in> set typeMap" "(''neutrophils'', ''neutrophils'') \<in> set typeMap"
    "(''poly'', ''neutrophils'') \<in> set typeMap"
    by (simp_all add: typeMap_def)
  have lc: "trim (toLowerCase ''Polys'') = ''polys''" "trim (toLowerCase ''Neutrophils'') = ''neutrophils''"
    "trim (toLowerCase ''POLY'') = ''poly''"
    by code_simp+
  have n1: "normalizeCellType ''Polys'' = Some ''neutrophils''"
    using one_entry_per_canonical_type [where c = "''Polys''" and syn = "''polys''" and canon = "''neutrophils''"] tm lc by blast
  have n2: "normalizeCellType ''Neutrophils'' = Some ''neutrophils''"
    using one_entry_per_canonical_type [where c = "''Neutrophils''" and syn = "''neutrophils''" and canon = "''neutrophils''"] tm lc by blast
  have n3: "normalizeCellType ''POLY'' = Some ''neutrophils''"
    using one_entry_per_canonical_type [where c = "''POLY''" and syn = "''poly''" and canon = "''neutrophils''"] tm lc by blast
  have "''neutrophils'' \<in> set canonicalTypes" by (simp add: canonicalTypes_eval)
  with inst have le: "length (filter (\<lambda>e. fst e = ''neutrophils'') (parseDifferential (Some ?t))) \<le> 1"
    by blast
  have "list_all is_ascii ?t" by code_simp
  then have asc: "\<forall>x\<in>set ?t. is_ascii x" unfolding list_all_iff .
  have np: "\<not> notPerformed ?t" by code_simp
  have ln: "''POLY: 6'' \<in> set (split_nl ?t)" by code_simp
  have lm: "lineMatch ''POLY: 6'' = Some ?m" by code_simp
  from inst asc np ln lm
  have "map fst (filter (\<lambda>e. fst e = normalizedType ?m) (parseDifferential (Some ?t))) = [normalizedType ?m]"
    by blast
  then have ex: "map fst (filter (\<lambda>e. fst e = ''neutrophils'') (parseDifferential (Some ?t))) = [''neutrophils'']"
    by simp
  from r n1 n2 n3 le ex show ?thesis by (intro conjI)
qed




text \<open>
  Claim C9. For every text and every lab label of \<open>cbcPatterns\<close>: when the label's pattern
  matches at index \<open>k\<close> of the text and at no earlier index, the value that parseCBC
  stores under the label is the one captured by that earliest match (the string itself for
  the date, its parseFloat otherwise). The stored value is a function of the earliest match
  alone, so occurrences of the label further on in the text have no effect.
\<close>

theorem parseCBC_uses_first_match:
  assumes "(key, re) \<in> set cbcPatterns"
    and "k \<le> length text"
    and "match_at re text k = Some m"
    and "\<forall>k'<k. match_at re text k' = None"
  shows "obj_get (parseCBC (Some text)) key =
           Some (if key = ''date'' then Str (grp m 1) else Num (parseFloat (grp m 1)))"
proof -
  have ne: "text \<noteq> []"
    using assms(1,3) cbc_no_match_in_empty by fastforce
  have re: "map_of cbcPatterns key = Some re"
    using assms(1) distinct_cbcPatterns by (rule_tac map_of_is_SomeI)
  have "exec re text = Some m"
    by (rule exec_first [OF assms(2,3,4)])
  with ne re show ?thesis by (simp add: parseCBC_get)
qed

theorem parseCBC_uses_first_match_witness:
  "obj_get (parseCBC (Some ''x WBC: 5\<newline>WBC: 9'')) ''wbc'' = Some (Num (Dec 5 0))"
proof -
  let ?t = "''x WBC: 5\<newline>WBC: 9''"
  have a: "(''wbc'', lab_re ''WBC'') \<in> set cbcPatterns" by (simp add: cbcPatterns_def)
  have b: "(2::nat) \<le> length ?t" by simp
  have c: "match_at (lab_re ''WBC'') ?t 2 = Some (''WBC: 5'', [(1, ''5'')])" by code_simp
  have d0: "match_at (lab_re ''WBC'') ?t 0 = None" by code_simp
  have d1: "match_at (lab_re ''WBC'') ?t 1 = None" by code_simp
  have d: "\<forall>k'<2. match_at (lab_re ''WBC'') ?t k' = None"
    using d0 d1 by (auto simp: less_2_cases_iff)
  have e: "parseFloat ''5'' = Dec 5 0" by code_simp
  show ?thesis using parseCBC_uses_first_match [OF a b c d] e by simp
qed

text \<open>
  Claim C8. A line that contains the absolute-count marker \<open>#\<close> contributes no entry to
  the percentage mapping: the entries collected from the lines of a text are those collected
  from its lines without \<open>#\<close>, and every entry of the mapping returned by
  parseDifferential other than the method status comes from a line of the text that has no
  \<open>#\<close>, matched the percentage pattern and was normalized to the entry's key.
\<close>

theorem absolute_count_lines_contribute_nothing:
  "collectMatches ls = collectMatches (filter (\<lambda>l. \<not> includesStr l ''#'') ls) \<and>
   (\<forall>key v. (key, v) \<in> set (parseDifferential (Some text)) \<and> key \<noteq> ''diffMethod'' \<longrightarrow>
      (\<exists>line\<in>set (split_nl text). \<not> includesStr line ''#'' \<and>
         (\<exists>m. lineMatch line = Some m \<and> normalizedType m = key \<and> v = Num (percentage m))))"
  using collectMatches_filter [of ls] differential_entry_origin [of _ _ "text"] by blast

theorem absolute_count_lines_contribute_nothing_witness:
  "collectMatches [''Neutrophils #: 4.2'', ''Lymphs: 30''] = collectMatches [''Lymphs: 30''] \<and>
   parseDifferential (Some ''Neutrophils #: 4.2\<newline>Lymphs: 30'')
     = [(''diffMethod'', Str ''Unknown''), (''lymphocytes'', Num (Dec 30 0))] \<and>
   (\<exists>line\<in>set (split_nl ''Neutrophils #: 4.2\<newline>Lymphs: 30''). \<not> includesStr line ''#'' \<and>
      (\<exists>m. lineMatch line = Some m \<and> normalizedType m = ''lymphocytes''
           \<and> Num (Dec 30 0) = Num (percentage m)))"
proof -
  let ?t = "''Neutrophils #: 4.2\<newline>Lymphs: 30''"
  have f: "filter (\<lambda>l. \<not> includesStr l ''#'') [''Neutrophils #: 4.2'', ''Lymphs: 30''] = [''Lymphs: 30'']"
    by code_simp
  have p: "parseDifferential (Some ?t) = [(''diffMethod'', Str ''Unknown''), (''lymphocytes'', Num (Dec 30 0))]"
    by code_simp
  have inp: "(''lymphocytes'', Num (Dec 30 0)) \<in> set (parseDifferential (Some ?t)) \<and> ''lymphocytes'' \<noteq> ''diffMethod''"
    unfolding p by simp
  have 1: "collectMatches [''Neutrophils #: 4.2'', ''Lymphs: 30''] = collectMatches [''Lymphs: 30'']"
    using absolute_count_lines_contribute_nothing [of "[''Neutrophils #: 4.2'', ''Lymphs: 30'']" ?t, THEN conjunct1] f by simp
  have 3: "\<exists>line\<in>set (split_nl ?t). \<not> includesStr line ''#'' \<and>
      (\<exists>m. lineMatch line = Some m \<and> normalizedType m = ''lymphocytes''
           \<and> Num (Dec 30 0) = Num (percentage m))"
    by (rule absolute_count_lines_contribute_nothing [of "[]" ?t, THEN conjunct2, rule_format, OF inp])
  from 1 p 3 show ?thesis by blast
qed

text \<open>
  Claim C7. parseCBC, parseDifferential and parseMorphology are total functions on the text
  (they have no failing branch) and return the empty mapping for the null and for the empty
  text. On every text, a lab label none of whose patterns matches is absent from the result
  of parseCBC; a morphology label whose pattern does not match is absent from the result of
  parseMorphology (\<open>nrbc\<close> has its own pattern); and a cell type to which no line of the
  text is normalized is absent from the result of parseDifferential. Absent means that the
  key has no value at all, so no zero, null or error value stands in for it.
\<close>

theorem empty_input_and_unmatched_labels:
  "parseCBC None = [] \<and> parseCBC (Some []) = [] \<and>
   parseDifferential None = [] \<and> parseDifferential (Some []) = [] \<and>
   parseMorphology None = [] \<and> parseMorphology (Some []) = [] \<and>
   ((\<forall>re. (key, re) \<in> set cbcPatterns \<longrightarrow> exec re text = None) \<longrightarrow>
      obj_get (parseCBC (Some text)) key = None) \<and>
   ((\<forall>re. (key, re) \<in> set morphologyPatterns \<longrightarrow> exec re text = None) \<and>
    (key = ''nrbc'' \<longrightarrow> exec nrbc_re text = None) \<longrightarrow>
      obj_get (parseMorphology (Some text)) key = None) \<and>
   (key \<noteq> ''diffMethod'' \<and>
    (\<forall>line\<in>set (split_nl text). \<forall>m. lineMatch line = Some m \<longrightarrow> normalizedType m \<noteq> key) \<longrightarrow>
      obj_get (parseDifferential (Some text)) key = None)"
proof -
  have empty: "parseCBC None = [] \<and> parseCBC (Some []) = [] \<and>
     parseDifferential None = [] \<and> parseDifferential (Some []) = [] \<and>
     parseMorphology None = [] \<and> parseMorphology (Some []) = []"
    by (simp add: parseCBC_def parseDifferential_def parseMorphology_def)
  have lab: "obj_get (parseCBC (Some text)) key = None"
    if h: "\<forall>re. (key, re) \<in> set cbcPatterns \<longrightarrow> exec re text = None"
  proof (cases "text = []")
    case True
    then show ?thesis by (simp add: parseCBC_def obj_get_Nil)
  next
    case False
    show ?thesis
    proof (cases "map_of cbcPatterns key")
      case None
      with False show ?thesis by (simp add: parseCBC_get)
    next
      case (Some re)
      then have "exec re text = None" using h map_of_SomeD by fast
      with False Some show ?thesis by (simp add: parseCBC_get)
    qed
  qed
  have morph: "obj_get (parseMorphology (Some text)) key = None"
    if h: "\<forall>re. (key, re) \<in> set morphologyPatterns \<longrightarrow> exec re text = None"
      and n: "key = ''nrbc'' \<longrightarrow> exec nrbc_re text = None"
  proof (cases "text = []")
    case True
    then show ?thesis by (simp add: parseMorphology_def obj_get_Nil)
  next
    case False
    show ?thesis
    proof (cases "map_of morphologyPatterns key")
      case None
      with False n show ?thesis by (simp add: parseMorphology_get)
    next
      case (Some re)
      then have "exec re text = None" using h map_of_SomeD by fast
      with False Some n show ?thesis by (simp add: parseMorphology_get)
    qed
  qed
  have diff: "obj_get (parseDifferential (Some text)) key = None"
    if k: "key \<noteq> ''diffMethod''"
      and h: "\<forall>line\<in>set (split_nl text). \<forall>m. lineMatch line = Some m \<longrightarrow> normalizedType m \<noteq> key"
  proof (rule ccontr)
    assume "obj_get (parseDifferential (Some text)) key \<noteq> None"
    then obtain v where "(key, v) \<in> set (parseDifferential (Some text))"
      by (auto simp: obj_get_None_iff)
    from differential_entry_origin [OF this k] h show False by blast
  qed
  show ?thesis
    by (intro conjI impI) (use empty lab morph diff in simp_all)
qed

theorem empty_input_and_unmatched_labels_witness:
  "obj_get (parseCBC (Some ''WBC: 7.2'')) ''rbc'' = None \<and>
   obj_get (parseMorphology (Some ''WBC: 7.2'')) ''toxicGranulation'' = None \<and>
   obj_get (parseMorphology (Some ''WBC: 7.2'')) ''nrbc'' = None \<and>
   obj_get (parseDifferential (Some ''WBC: 7.2'')) ''neutrophils'' = None \<and>
   parseCBC (Some ''WBC: 7.2'') = [(''wbc'', Num (Dec 72 1))]"
proof -
  let ?t = "''WBC: 7.2''"
  have a: "\<forall>re. (''rbc'', re) \<in> set cbcPatterns \<longrightarrow> exec re ?t = None"
  proof -
    have "exec (lab_re ''RBC'') ?t = None" by code_simp
    then show ?thesis by (simp add: cbcPatterns_def)
  qed
  have b: "\<forall>re. (''toxicGranulation'', re) \<in> set morphologyPatterns \<longrightarrow> exec re ?t = None"
  proof -
    have "exec (seqs [lit_i ''Toxic'', re_plus space, lit_i ''Granulation'', re_star colon_or_space,
               Group 1 (re_plus letter_i)]) ?t = None" by code_simp
    then show ?thesis by (simp add: morphologyPatterns_def)
  qed
  have b': "\<forall>re. (''nrbc'', re) \<in> set morphologyPatterns \<longrightarrow> exec re ?t = None"
    by (simp add: morphologyPatterns_def)
  have c: "exec nrbc_re ?t = None" by code_simp
  have s: "split_nl ?t = [?t]" by code_simp
  have l: "lineMatch ?t = None" by code_simp
  have d: "\<forall>line\<in>set (split_nl ?t). \<forall>m. lineMatch line = Some m \<longrightarrow> normalizedType m \<noteq> ''neutrophils''"
    unfolding s using l by simp
  have e: "parseCBC (Some ?t) = [(''wbc'', Num (Dec 72 1))]" by code_simp
  from empty_input_and_unmatched_labels [of "''rbc''" ?t] a have 1: "obj_get (parseCBC (Some ?t)) ''rbc'' = None" by blast
  from empty_input_and_unmatched_labels [of "''toxicGranulation''" ?t] b have 2: "obj_get (parseMorphology (Some ?t)) ''toxicGranulation'' = None" by simp
  from empty_input_and_unmatched_labels [of "''nrbc''" ?t] b' c have 3: "obj_get (parseMorphology (Some ?t)) ''nrbc'' = None" by blast
  from empty_input_and_unmatched_labels [of "''neutrophils''" ?t] d have 4: "obj_get (parseDifferential (Some ?t)) ''neutrophils'' = None" by simp
  from 1 2 3 4 e show ?thesis by blast
qed




text \<open>
  Claim C10. A lab pattern whose capture parses to 0 makes parseCBC store the label with
  the value 0. In the paragraph such a label is treated as an absent one: the list of lab
  items, and with it the lab sentence, is the one of the mapping without that label. In
  the same way a bundle whose morphology mapping holds an NRBC value of 0 gets the
  paragraph of the bundle without that value, so the morphology-sourced 0 is never
  rendered.
\<close>

theorem zero_values_stored_but_not_narrated:
  "((key, re) \<in> set cbcPatterns \<and> key \<noteq> ''date'' \<and> exec re text = Some m \<and>
      parseFloat (grp m 1) = Dec 0 0 \<longrightarrow>
        obj_get (parseCBC (Some text)) key = Some (Num (Dec 0 0))) \<and>
   (obj_get c key = Some (Num (Dec 0 0)) \<longrightarrow>
        cbcParts c = cbcParts (filter (\<lambda>e. fst e \<noteq> key) c) \<and>
        cbcSection c = leadIn c @ join '', '' (cbcParts (filter (\<lambda>e. fst e \<noteq> key) c)) @ ''.'') \<and>
   (obj_get (morphology p) ''nrbc'' = Some (Num (Dec 0 0)) \<longrightarrow>
        generateCBCParagraph p =
        generateCBCParagraph (p\<lparr>morphology := filter (\<lambda>e. fst e \<noteq> ''nrbc'') (morphology p)\<rparr>))"
proof -
  have stored: "obj_get (parseCBC (Some text)) key = Some (Num (Dec 0 0))"
    if "(key, re) \<in> set cbcPatterns" and "key \<noteq> ''date''" and "exec re text = Some m"
      and "parseFloat (grp m 1) = Dec 0 0"
  proof -
    have "text \<noteq> []"
      using that(1,3) cbc_no_match_in_empty [of key re 0] exec_Nil_match_at by fastforce
    moreover have "map_of cbcPatterns key = Some re"
      using that(1) distinct_cbcPatterns by (rule_tac map_of_is_SomeI)
    ultimately show ?thesis using that(2,3,4) by (simp add: parseCBC_get)
  qed
  have listed: "cbcParts c = cbcParts (filter (\<lambda>e. fst e \<noteq> key) c) \<and>
        cbcSection c = leadIn c @ join '', '' (cbcParts (filter (\<lambda>e. fst e \<noteq> key) c)) @ ''.''"
    if z: "obj_get c key = Some (Num (Dec 0 0))"
  proof -
    have ne: "c \<noteq> []" using z by (auto simp: obj_get_Nil)
    have p: "cbcParts c = cbcParts (filter (\<lambda>e. fst e \<noteq> key) c)" by (rule cbcParts_zero [OF z])
    have "cbcSection c = leadIn c @ join '', '' (cbcParts c) @ ''.''"
      using ne by (simp add: cbcSection_def leadIn_def)
    with p show ?thesis by simp
  qed
  have nrbc: "generateCBCParagraph p =
        generateCBCParagraph (p\<lparr>morphology := filter (\<lambda>e. fst e \<noteq> ''nrbc'') (morphology p)\<rparr>)"
    if "obj_get (morphology p) ''nrbc'' = Some (Num (Dec 0 0))"
    by (simp add: generateCBCParagraph_def morphParts_zero_nrbc [OF that] cong: sum.case_cong)
  show ?thesis
    by (intro conjI impI) (use stored listed nrbc in simp_all)
qed

theorem zero_values_stored_but_not_narrated_witness:
  "obj_get (parseCBC (Some ''WBC: 0'')) ''wbc'' = Some (Num (Dec 0 0)) \<and>
   cbcParts [(''wbc'', Num (Dec 0 0))] = [] \<and>
   cbcSection [(''wbc'', Num (Dec 0 0))] = ''CBC results are as follows: .'' \<and>
   parseMorphology (Some ''NRBC% auto: 0'') = [(''nrbc'', Num (Dec 0 0))] \<and>
   generateCBCParagraph (parseAll (Some ''NRBC% auto: 0'')) = Inr []"
proof -
  let ?m = "(''WBC: 0'', [(1, ''0'')])"
  have a: "(''wbc'', lab_re ''WBC'') \<in> set cbcPatterns \<and> ''wbc'' \<noteq> ''date'' \<and>
     exec (lab_re ''WBC'') ''WBC: 0'' = Some ?m \<and> parseFloat (grp ?m 1) = Dec 0 0"
  proof -
    have 1: "(''wbc'', lab_re ''WBC'') \<in> set cbcPatterns" by (simp add: cbcPatterns_def)
    have 2: "exec (lab_re ''WBC'') ''WBC: 0'' = Some ?m" by code_simp
    have 3: "parseFloat (grp ?m 1) = Dec 0 0" by code_simp
    from 1 2 3 show ?thesis by simp
  qed
  have w1: "obj_get (parseCBC (Some ''WBC: 0'')) ''wbc'' = Some (Num (Dec 0 0))"
    by (rule zero_values_stored_but_not_narrated [THEN conjunct1, rule_format, OF a])
  let ?c = "[(''wbc'', Num (Dec 0 0))]"
  have b: "obj_get ?c ''wbc'' = Some (Num (Dec 0 0))" by (simp add: obj_get_def)
  have f: "filter (\<lambda>e. fst e \<noteq> ''wbc'') ?c = []" by simp
  have e: "cbcParts [] = []" by (simp add: cbcParts_def obj_get_Nil)
  have l: "leadIn ?c = ''CBC results are as follows: ''" by (simp add: leadIn_def obj_get_def)
  from zero_values_stored_but_not_narrated [where c = ?c and key = "''wbc''", THEN conjunct2, THEN conjunct1, rule_format, OF b]
  have w2: "cbcParts ?c = [] \<and> cbcSection ?c = ''CBC results are as follows: .''"
    unfolding f e l by simp
  let ?p = "parseAll (Some ''NRBC% auto: 0'')"
  have mo: "parseMorphology (Some ''NRBC% auto: 0'') = [(''nrbc'', Num (Dec 0 0))]" by code_simp
  have pm: "morphology ?p = [(''nrbc'', Num (Dec 0 0))]" by (simp add: parseAll_def mo)
  have n: "obj_get (morphology ?p) ''nrbc'' = Some (Num (Dec 0 0))"
    unfolding pm by (simp add: obj_get_def)
  have g: "generateCBCParagraph (?p\<lparr>morphology := filter (\<lambda>e. fst e \<noteq> ''nrbc'') (morphology ?p)\<rparr>) = Inr []"
    by code_simp
  from zero_values_stored_but_not_narrated [where p = ?p, THEN conjunct2, THEN conjunct2, rule_format, OF n] g
  have w3: "generateCBCParagraph ?p = Inr []" by simp
  from w1 w2 mo w3 show ?thesis by blast
qed

text \<open>
  Claim C1. The claim asks that of the two lines \<open>Lymphs: 40\<close> and
  \<open>Lymphs (%): 42\<close> the percent-qualified one wins. The percentage pattern leaves a
  parenthesized qualifier that stands right before the colon out of the captured label, so
  both lines get priority 1, the first one seen is kept, and the resolved value is 40.
  A line with another qualifier, such as \<open>Basos (auto): 3\<close>, gets priority 1 as well.
  The second pass does keep an entry of the highest priority of its type (lemma
  \<open>selectGroups_highest\<close>); it is the assignment of the ranks that misses the qualifier.
\<close>

theorem percent_qualified_line_does_not_win:
  "parseDifferential (Some ''Lymphs: 40\<newline>Lymphs (%): 42'')
     = [(''diffMethod'', Str ''Unknown''), (''lymphocytes'', Num (Dec 40 0))] \<and>
   map_option priority (lineMatch ''Lymphs: 40'') = Some 1 \<and>
   map_option priority (lineMatch ''Lymphs (%): 42'') = Some 1 \<and>
   map_option priority (lineMatch ''Basos (auto): 3'') = Some 1"
proof -
  have 1: "parseDifferential (Some ''Lymphs: 40\<newline>Lymphs (%): 42'')
     = [(''diffMethod'', Str ''Unknown''), (''lymphocytes'', Num (Dec 40 0))]" by code_simp
  have 2: "map_option priority (lineMatch ''Lymphs: 40'') = Some 1" by code_simp
  have 3: "map_option priority (lineMatch ''Lymphs (%): 42'') = Some 1" by code_simp
  have 4: "map_option priority (lineMatch ''Basos (auto): 3'') = Some 1" by code_simp
  from 1 2 3 4 show ?thesis by blast
qed

text \<open>
  Claim C2. The claim asks for the fixed not-performed sentence in the paragraph. On a text
  whose method line says \<open>not performed\<close>, parseDifferential returns the status alone;
  the differential section of generateCBCParagraph requires more than one key, so for a
  mapping that holds the status alone, whatever the status says, it adds nothing, and the
  paragraph is the lab sentence without any sentence about the differential.
\<close>

theorem not_performed_sentence_not_generated:
  "diffSection [(''diffMethod'', Str s)] = Inr [] \<and>
   parseDifferential (Some ''WBC: 0.4\<newline>Diff Method: not performed'')
     = [(''diffMethod'', Str ''not performed'')] \<and>
   generateCBCParagraph (parseAll (Some ''WBC: 0.4\<newline>Diff Method: not performed''))
     = Inr (''CBC results are as follows: WBC 0.4 K/'' @ mu @ ''L.'')"
proof -
  have 0: "diffSection [(''diffMethod'', Str s)] = Inr []" by (simp add: diffSection_def)
  have 1: "parseDifferential (Some ''WBC: 0.4\<newline>Diff Method: not performed'')
     = [(''diffMethod'', Str ''not performed'')]" by code_simp
  have 2: "generateCBCParagraph (parseAll (Some ''WBC: 0.4\<newline>Diff Method: not performed''))
     = Inr (''CBC results are as follows: WBC 0.4 K/'' @ mu @ ''L.'')" by code_simp
  from 0 1 2 show ?thesis by blast
qed

text \<open>
  Claim C5. The end-to-end scenario: the lab mapping, the differential mapping (the method
  status \<open>Unknown\<close> and the three percentage entries) and the paragraph, which is the
  lab sentence, the differential clause and the NRBC continuation.
\<close>

theorem end_to_end_scenario:
  "cbc (parseAll (Some ''WBC: 7.2\<newline>HGB: 13.1\<newline>Neutrophils (%): 55\<newline>Lymphs: 30\<newline>NRBC%: 2''))
     = [(''wbc'', Num (Dec 72 1)), (''hgb'', Num (Dec 131 1))] \<and>
   differential (parseAll (Some ''WBC: 7.2\<newline>HGB: 13.1\<newline>Neutrophils (%): 55\<newline>Lymphs: 30\<newline>NRBC%: 2''))
     = [(''diffMethod'', Str ''Unknown''), (''neutrophils'', Num (Dec 55 0)),
        (''lymphocytes'', Num (Dec 30 0)), (''nrbc'', Num (Dec 2 0))] \<and>
   filter (\<lambda>e. fst e \<noteq> ''diffMethod'')
     (differential (parseAll (Some ''WBC: 7.2\<newline>HGB: 13.1\<newline>Neutrophils (%): 55\<newline>Lymphs: 30\<newline>NRBC%: 2'')))
     = [(''neutrophils'', Num (Dec 55 0)), (''lymphocytes'', Num (Dec 30 0)), (''nrbc'', Num (Dec 2 0))] \<and>
   generateCBCParagraph (parseAll (Some ''WBC: 7.2\<newline>HGB: 13.1\<newline>Neutrophils (%): 55\<newline>Lymphs: 30\<newline>NRBC%: 2''))
     = Inr (''CBC results are as follows: WBC 7.2 K/'' @ mu @ ''L, HGB 13.1 g/dL.''
            @ '' Unknown differential shows '' @ ''55% neutrophils, 30% lymphocytes''
            @ '', '' @ ''2% NRBCs.'')"
proof -
  let ?t = "Some ''WBC: 7.2\<newline>HGB: 13.1\<newline>Neutrophils (%): 55\<newline>Lymphs: 30\<newline>NRBC%: 2''"
  have 1: "cbc (parseAll ?t) = [(''wbc'', Num (Dec 72 1)), (''hgb'', Num (Dec 131 1))]"
    by code_simp
  have 2: "differential (parseAll ?t) = [(''diffMethod'', Str ''Unknown''), (''neutrophils'', Num (Dec 55 0)),
        (''lymphocytes'', Num (Dec 30 0)), (''nrbc'', Num (Dec 2 0))]"
    by code_simp
  have 3: "filter (\<lambda>e. fst e \<noteq> ''diffMethod'') (differential (parseAll ?t))
     = [(''neutrophils'', Num (Dec 55 0)), (''lymphocytes'', Num (Dec 30 0)), (''nrbc'', Num (Dec 2 0))]"
    unfolding 2 by simp
  have 4: "generateCBCParagraph (parseAll ?t)
     = Inr (''CBC results are as follows: WBC 7.2 K/'' @ mu @ ''L, HGB 13.1 g/dL.''
            @ '' Unknown differential shows '' @ ''55% neutrophils, 30% lymphocytes''
            @ '', '' @ ''2% NRBCs.'')"
    by code_simp
  from 1 2 3 4 show ?thesis by blast
qed

end
